theory Spec2Isabelle
  imports Main "HOL-Library.Word" "HOL-Library.AList" "HOL-Library.List_Lexorder"
begin

section \<open>The storage facade of the node (store/store.go)\<close>

text \<open>
  A shallow embedding of \<^verbatim>\<open>store/store.go\<close>. Byte slices are lists of 8-bit words,
  \<^verbatim>\<open>uint32\<close> and \<open>int32\<close> are 32-bit words (addition wraps), the key-value engine is a
  finite table of key/value pairs, and the pending batch is the list of its \<^verbatim>\<open>Put\<close>
  operations in the order they were enqueued. Every operation takes the store and, when
  it mutates, returns the new store. A Go panic is the value \<open>Panic\<close>, an error return
  is \<open>Err e\<close>.
\<close>

subsection \<open>Bytes, results and slices\<close>

type_synonym byte = "8 word"
type_synonym bytes = "byte list"
type_synonym u32 = "32 word"
type_synonym i32 = "32 word"

text \<open>
  \<open>ErrNotFound\<close> is what \<^verbatim>\<open>tryGet\<close> hands back for an absent key, \<open>ErrBadOffset\<close> is
  the variable of the same name in the source, \<open>ErrDecode\<close> a failed decoding of stored
  bytes and \<open>ErrEngine\<close> a failed engine write.
\<close>

datatype error = ErrNotFound | ErrBadOffset | ErrDecode | ErrEngine

datatype 'a result = Ok 'a | Err error | Panic

text \<open>
  The Go slice expression \<^verbatim>\<open>xs[lo:hi]\<close>: it panics unless \<open>lo \<le> hi \<le> cap xs\<close>. The
  slices sliced here are values fetched from the engine, whose capacity is taken to be
  their length: slicing past the length of a fetched value is a panic here, whatever spare
  capacity the engine's buffer may have.
\<close>

definition go_slice :: "'a list \<Rightarrow> nat \<Rightarrow> nat \<Rightarrow> 'a list option" where
  "go_slice xs lo hi = (if lo \<le> hi \<and> hi \<le> length xs then Some (take (hi - lo) (drop lo xs)) else None)"

subsection \<open>Fixed-width integers in bytes\<close>

text \<open>
  Modelled from the spec: \<^verbatim>\<open>util.Uint32ToSlice\<close> and \<^verbatim>\<open>util.SliceToUint32\<close> are not among
  the sources. Integers are fixed-width; the value bytes are little-endian ("a
  little/native 32-bit value"), key material is big-endian.
\<close>

definition Uint32ToSlice :: "u32 \<Rightarrow> bytes" where
  "Uint32ToSlice w = map (\<lambda>i. of_nat (unat w div 256 ^ i mod 256)) [0, 1, 2, 3]"

definition SliceToUint32 :: "bytes \<Rightarrow> u32" where
  "SliceToUint32 bs = of_nat (foldr (\<lambda>b acc. unat b + 256 * acc) (take 4 bs) 0)"

definition Uint32ToSliceBE :: "u32 \<Rightarrow> bytes" where
  "Uint32ToSliceBE w = rev (Uint32ToSlice w)"

subsection \<open>The key-value engine\<close>

text \<open>
  The engine (goleveldb) is an external collaborator, used through
  \<^verbatim>\<open>Get\<close>, \<^verbatim>\<open>Write\<close> of a batch and iteration. \<open>kv\<close> is its table; \<open>write_fault\<close> is
  the error its batch write reports, if any, which is the environment's choice. A batch
  write is atomic: it applies every operation, in order, or none.
\<close>

record engine =
  kv :: "(bytes \<times> bytes) list"
  write_fault :: "error option"

type_synonym batch = "(bytes \<times> bytes) list"

definition batch_Put :: "batch \<Rightarrow> bytes \<Rightarrow> bytes \<Rightarrow> batch" where
  "batch_Put b k v = b @ [(k, v)]"

definition db_Get :: "engine \<Rightarrow> bytes \<Rightarrow> bytes result" where
  "db_Get d k = (case map_of (kv d) k of None \<Rightarrow> Err ErrNotFound | Some v \<Rightarrow> Ok v)"

fun apply_puts :: "(bytes \<times> bytes) list \<Rightarrow> batch \<Rightarrow> (bytes \<times> bytes) list" where
  "apply_puts t [] = t"
| "apply_puts t ((k, v) # b) = apply_puts (AList.update k v t) b"

definition db_Write :: "engine \<Rightarrow> batch \<Rightarrow> error + engine" where
  "db_Write d b =
     (case write_fault d of Some e \<Rightarrow> Inl e | None \<Rightarrow> Inr (d\<lparr>kv := apply_puts (kv d) b\<rparr>))"

definition tryGet :: "engine \<Rightarrow> bytes \<Rightarrow> bytes result" where
  "tryGet d key = (case db_Get d key of Ok data \<Rightarrow> Ok data | Err e \<Rightarrow> Err e | Panic \<Rightarrow> Panic)"

subsection \<open>Keys\<close>

definition lastInfoKey :: bytes where "lastInfoKey = [0x00]"
definition blockPrefix :: bytes where "blockPrefix = [0x01]"
definition txPrefix :: bytes where "txPrefix = [0x03]"
definition accountPrefix :: bytes where "accountPrefix = [0x05]"
definition validatorPrefix :: bytes where "validatorPrefix = [0x07]"
definition blockHeightPrefix :: bytes where "blockHeightPrefix = [0x09]"
definition publicKeyPrefix :: bytes where "publicKeyPrefix = [0x0a]"

text \<open>
  Modelled from the spec: the key builders are not among the sources. A key is the
  table's one-byte prefix followed by the big-endian height, the transaction id, the
  block hash or the address bytes.
\<close>

definition blockKey :: "u32 \<Rightarrow> bytes" where
  "blockKey height = blockPrefix @ Uint32ToSliceBE height"

definition txKey :: "bytes \<Rightarrow> bytes" where
  "txKey txid = txPrefix @ txid"

definition blockHashKey :: "bytes \<Rightarrow> bytes" where
  "blockHashKey h = blockHeightPrefix @ h"

subsection \<open>Hashes\<close>

text \<open>
  Modelled from the spec: package \<^verbatim>\<open>hash\<close> is not among the sources. A hash is 32
  bytes; \<^verbatim>\<open>hash.FromBytes\<close> refuses any other length; the undefined hash is all zero.
\<close>

type_synonym hash = bytes

definition HashSize :: nat where "HashSize = 32"

definition hash_FromBytes :: "bytes \<Rightarrow> hash option" where
  "hash_FromBytes bs = (if length bs = HashSize then Some bs else None)"

definition UndefHash :: hash where
  "UndefHash = replicate HashSize 0"

subsection \<open>Block store and transaction store: lookups\<close>

record blockRegion =
  height :: u32
  offset :: u32
  length_of :: u32

text \<open>
  Modelled from the spec: \<^verbatim>\<open>blockStore.block\<close>, \<^verbatim>\<open>blockStore.blockHeight\<close> and
  \<^verbatim>\<open>txStore.tx\<close> are not among the sources. \<open>block(height)\<close> is the stored value
  under the height key or NotFound; \<open>blockHeight(hash)\<close> is the indexed height, 0 when
  absent; \<open>tx(id)\<close> decodes the 12-byte position record (height, offset, length) or is
  NotFound.
\<close>

definition blockStore_block :: "engine \<Rightarrow> u32 \<Rightarrow> bytes result" where
  "blockStore_block d h = tryGet d (blockKey h)"

definition blockStore_blockHeight :: "engine \<Rightarrow> hash \<Rightarrow> u32" where
  "blockStore_blockHeight d h =
     (case tryGet d (blockHashKey h) of Ok data \<Rightarrow> SliceToUint32 data | _ \<Rightarrow> 0)"

definition decode_region :: "bytes \<Rightarrow> blockRegion option" where
  "decode_region data =
     (if length data = 12
      then Some \<lparr>height = SliceToUint32 (take 4 data),
                 offset = SliceToUint32 (take 4 (drop 4 data)),
                 length_of = SliceToUint32 (take 4 (drop 8 data))\<rparr>
      else None)"

definition encode_region :: "blockRegion \<Rightarrow> bytes" where
  "encode_region r = Uint32ToSlice (height r) @ Uint32ToSlice (offset r) @ Uint32ToSlice (length_of r)"

definition txStore_tx :: "engine \<Rightarrow> bytes \<Rightarrow> blockRegion result" where
  "txStore_tx d txid =
     (case tryGet d (txKey txid) of
        Ok data \<Rightarrow> (case decode_region data of None \<Rightarrow> Err ErrDecode | Some r \<Rightarrow> Ok r)
      | Err e \<Rightarrow> Err e
      | Panic \<Rightarrow> Panic)"

subsection \<open>The store\<close>

text \<open>
  The fields of the store that the operations below read or write: the engine, the shared
  batch, and the in-memory state of the account and validator stores. \<^verbatim>\<open>CommittedTx\<close> has
  fields \<^verbatim>\<open>Height\<close> and \<^verbatim>\<open>Data\<close> like \<^verbatim>\<open>CommittedBlock\<close>; they are \<open>TxHeight\<close> and \<open>TxData\<close>
  here, and the method \<^verbatim>\<open>BlockHash\<close> is \<open>BlockHash_of\<close>. The back pointer to the store in
  both results is left out.
\<close>

record store =
  db :: engine
  batch :: batch
  accountStore_accounts :: "(bytes \<times> bytes) list"
  accountStore_total :: i32
  validatorStore_total :: i32
  validatorStore_addresses :: "bytes list"

record CommittedBlock =
  BlockHash :: hash
  Height :: u32
  Data :: bytes

record CommittedTx =
  TxID :: bytes
  TxHeight :: u32
  BlockTime :: u32
  TxData :: bytes

definition Block :: "store \<Rightarrow> u32 \<Rightarrow> CommittedBlock result" where
  "Block s h =
     (case blockStore_block (db s) h of
        Err e \<Rightarrow> Err e
      | Panic \<Rightarrow> Panic
      | Ok data \<Rightarrow>
          (case go_slice data 0 HashSize of
             None \<Rightarrow> Panic
           | Some hb \<Rightarrow>
               (case hash_FromBytes hb of
                  None \<Rightarrow> Err ErrDecode
                | Some blockHash \<Rightarrow>
                    (case go_slice data HashSize (length data) of
                       None \<Rightarrow> Panic
                     | Some rest \<Rightarrow> Ok \<lparr>BlockHash = blockHash, Height = h, Data = rest\<rparr>))))"

definition BlockHeight :: "store \<Rightarrow> hash \<Rightarrow> u32" where
  "BlockHeight s h = blockStore_blockHeight (db s) h"

definition BlockHash_of :: "store \<Rightarrow> u32 \<Rightarrow> hash result" where
  "BlockHash_of s h =
     (case blockStore_block (db s) h of
        Ok data \<Rightarrow>
          (case go_slice data 0 HashSize of
             None \<Rightarrow> Panic
           | Some hb \<Rightarrow> (case hash_FromBytes hb of None \<Rightarrow> Ok UndefHash | Some blockHash \<Rightarrow> Ok blockHash))
      | _ \<Rightarrow> Ok UndefHash)"

definition Transaction :: "store \<Rightarrow> bytes \<Rightarrow> CommittedTx result" where
  "Transaction s txid =
     (case txStore_tx (db s) txid of
        Err e \<Rightarrow> Err e
      | Panic \<Rightarrow> Panic
      | Ok pos \<Rightarrow>
          (case blockStore_block (db s) (height pos) of
             Err e \<Rightarrow> Err e
           | Panic \<Rightarrow> Panic
           | Ok data \<Rightarrow>
               (let start = offset pos;
                    end' = offset pos + length_of pos
                in if end' > of_nat (length data) then Err ErrBadOffset
                   else (case go_slice data (HashSize + 1) (HashSize + 5) of
                           None \<Rightarrow> Panic
                         | Some bt \<Rightarrow>
                             (case go_slice data (unat start) (unat end') of
                                None \<Rightarrow> Panic
                              | Some d \<Rightarrow>
                                  Ok \<lparr>TxID = txid, TxHeight = height pos,
                                      BlockTime = SliceToUint32 bt, TxData = d\<rparr>)))))"

subsection \<open>Writing the batch\<close>

definition WriteBatch :: "store \<Rightarrow> error option \<times> store" where
  "WriteBatch s =
     (case db_Write (db s) (batch s) of
        Inl err \<Rightarrow> (Some err, s)
      | Inr d \<Rightarrow> (None, s\<lparr>db := d, batch := []\<rparr>))"

subsection \<open>Saving a block and the last certificate\<close>

text \<open>
  Modelled from the spec: packages \<^verbatim>\<open>block\<close>, \<^verbatim>\<open>tx\<close> and \<^verbatim>\<open>certificate\<close> are not among the
  sources. A block is taken as its hash, the encoded bytes that precede its transactions,
  and its transactions, each with its id and its encoded bytes. The certificate type is
  a parameter: \<open>cert_ops\<close> holds its \<^verbatim>\<open>Height\<close>, \<^verbatim>\<open>Encode\<close> (\<open>None\<close>: the encoder reports
  an error, on which \<^verbatim>\<open>SaveBlock\<close> panics) and \<^verbatim>\<open>Decode\<close> (\<open>None\<close>: the decoder reports an
  error). Writing the 4-byte version into a buffer cannot fail.
\<close>

record tx =
  tx_ID :: bytes
  tx_bytes :: bytes

record block =
  blk_Hash :: hash
  blk_header :: bytes
  blk_Transactions :: "tx list"

record 'c cert_ops =
  cert_Height :: "'c \<Rightarrow> u32"
  cert_Encode :: "'c \<Rightarrow> bytes option"
  cert_Decode :: "bytes \<Rightarrow> 'c option"

definition lastStoreVersion :: i32 where "lastStoreVersion = 1"

text \<open>
  Modelled from the spec: \<^verbatim>\<open>blockStore.saveBlock\<close> and \<^verbatim>\<open>txStore.saveTx\<close> are not among the
  sources. \<open>saveBlock\<close> serializes the block (hash followed by the body) into the batch
  under the height key, writes the height-index entry, and returns one position record per
  transaction, computed from the byte layout of the stored value. \<open>saveTx\<close> enqueues the
  12-byte position record under the transaction key.
\<close>

fun regions :: "u32 \<Rightarrow> nat \<Rightarrow> tx list \<Rightarrow> blockRegion list" where
  "regions h pos [] = []"
| "regions h pos (t # ts) =
     \<lparr>height = h, offset = of_nat pos, length_of = of_nat (length (tx_bytes t))\<rparr>
       # regions h (pos + length (tx_bytes t)) ts"

definition block_bytes :: "block \<Rightarrow> bytes" where
  "block_bytes blk = blk_header blk @ concat (map tx_bytes (blk_Transactions blk))"

definition blockStore_saveBlock :: "batch \<Rightarrow> u32 \<Rightarrow> block \<Rightarrow> batch \<times> blockRegion list" where
  "blockStore_saveBlock b h blk =
     (let w = blk_Hash blk @ block_bytes blk;
          regs = regions h (length (blk_Hash blk) + length (blk_header blk)) (blk_Transactions blk);
          b1 = batch_Put b (blockKey h) w;
          b2 = batch_Put b1 (blockHashKey (blk_Hash blk)) (Uint32ToSlice h)
      in (b2, regs))"

definition txStore_saveTx :: "batch \<Rightarrow> bytes \<Rightarrow> blockRegion \<Rightarrow> batch" where
  "txStore_saveTx b txid reg = batch_Put b (txKey txid) (encode_region reg)"

text \<open>
  The loop of \<^verbatim>\<open>SaveBlock\<close> over the block's transactions, indexing the regions by the
  loop counter; an index past the end of the regions panics (\<open>None\<close>).
\<close>

fun saveTxs :: "batch \<Rightarrow> tx list \<Rightarrow> blockRegion list \<Rightarrow> batch option" where
  "saveTxs b [] regs = Some b"
| "saveTxs b (t # ts) [] = None"
| "saveTxs b (t # ts) (r # rs) = saveTxs (txStore_saveTx b (tx_ID t) r) ts rs"

definition SaveBlock :: "'c cert_ops \<Rightarrow> store \<Rightarrow> block \<Rightarrow> 'c \<Rightarrow> store result" where
  "SaveBlock C s blk cert =
     (let h = cert_Height C cert;
          (b1, reg) = blockStore_saveBlock (batch s) h blk
      in case saveTxs b1 (blk_Transactions blk) reg of
           None \<Rightarrow> Panic
         | Some b2 \<Rightarrow>
             (case cert_Encode C cert of
                None \<Rightarrow> Panic
              | Some cb \<Rightarrow>
                  Ok (s\<lparr>batch := batch_Put b2 lastInfoKey (Uint32ToSlice lastStoreVersion @ cb)\<rparr>)))"

definition LastCertificate :: "'c cert_ops \<Rightarrow> store \<Rightarrow> 'c option" where
  "LastCertificate C s =
     (case tryGet (db s) lastInfoKey of
        Ok data \<Rightarrow> (if length data < 4 then None else cert_Decode C (drop 4 data))
      | _ \<Rightarrow> None)"

text \<open>A store on a fresh database, and committing blocks one after the other.\<close>

definition emptyStore :: store where
  "emptyStore = \<lparr>db = \<lparr>kv = [], write_fault = None\<rparr>, batch = [],
                  accountStore_accounts = [], accountStore_total = 0, validatorStore_total = 0,
                  validatorStore_addresses = []\<rparr>"

fun commit_all :: "'c cert_ops \<Rightarrow> store \<Rightarrow> (block \<times> 'c) list \<Rightarrow> store result" where
  "commit_all C s [] = Ok s"
| "commit_all C s ((blk, cert) # bs) =
     (case SaveBlock C s blk cert of
        Ok s1 \<Rightarrow> (case WriteBatch s1 of
                    (None, s2) \<Rightarrow> commit_all C s2 bs
                  | (Some e, s2) \<Rightarrow> Err e)
      | Err e \<Rightarrow> Err e
      | Panic \<Rightarrow> Panic)"

subsection \<open>Accounts\<close>

text \<open>
  Modelled from the spec: the account store (\<^verbatim>\<open>hasAccount\<close>, \<^verbatim>\<open>updateAccount\<close>,
  \<^verbatim>\<open>iterateAccounts\<close>) is not among the sources. Like the validator store it keeps its
  state in memory beside the engine: the total, and the accounts seen so far under their
  addresses (a map, here an association list with one entry per address). An account is
  stored under the account prefix followed by its address. \<open>hasAccount\<close> looks the address
  up in memory; \<open>updateAccount\<close> checks existence, increments the total on a previously
  unseen address, records the account and enqueues the write; \<open>iterateAccounts\<close> visits the
  recorded accounts in address order and stops when the consumer says so. An account is
  taken as its serialized bytes, and the consumer as a function on a state of its own.
\<close>

definition accountKey :: "bytes \<Rightarrow> bytes" where
  "accountKey addr = accountPrefix @ addr"

definition accountStore_hasAccount :: "(bytes \<times> bytes) list \<Rightarrow> bytes \<Rightarrow> bool" where
  "accountStore_hasAccount m addr = (case map_of m addr of Some acc \<Rightarrow> True | None \<Rightarrow> False)"

definition accountStore_updateAccount ::
    "(bytes \<times> bytes) list \<Rightarrow> i32 \<Rightarrow> batch \<Rightarrow> bytes \<Rightarrow> bytes \<Rightarrow> (bytes \<times> bytes) list \<times> i32 \<times> batch" where
  "accountStore_updateAccount m tot b addr acc =
     (let tot' = (if accountStore_hasAccount m addr then tot else tot + 1)
      in (AList.update addr acc m, tot', batch_Put b (accountKey addr) acc))"

fun iterate_entries :: "('st \<Rightarrow> bytes \<Rightarrow> bytes \<Rightarrow> bool \<times> 'st) \<Rightarrow> (bytes \<times> bytes) list \<Rightarrow> 'st \<Rightarrow> 'st" where
  "iterate_entries consumer [] st = st"
| "iterate_entries consumer ((addr, acc) # es) st =
     (case consumer st addr acc of
        (stopped, st') \<Rightarrow> if stopped then st' else iterate_entries consumer es st')"

definition accountStore_iterateAccounts ::
    "(bytes \<times> bytes) list \<Rightarrow> ('st \<Rightarrow> bytes \<Rightarrow> bytes \<Rightarrow> bool \<times> 'st) \<Rightarrow> 'st \<Rightarrow> 'st" where
  "accountStore_iterateAccounts m consumer st = iterate_entries consumer (sort_key fst m) st"

definition UpdateAccount :: "store \<Rightarrow> bytes \<Rightarrow> bytes \<Rightarrow> store" where
  "UpdateAccount s addr acc =
     (case accountStore_updateAccount (accountStore_accounts s) (accountStore_total s) (batch s) addr acc of
        (m', tot', b') \<Rightarrow> s\<lparr>accountStore_accounts := m', accountStore_total := tot', batch := b'\<rparr>)"

definition TotalAccounts :: "store \<Rightarrow> i32" where
  "TotalAccounts s = accountStore_total s"

definition IterateAccounts :: "store \<Rightarrow> ('st \<Rightarrow> bytes \<Rightarrow> bytes \<Rightarrow> bool \<times> 'st) \<Rightarrow> 'st \<Rightarrow> 'st" where
  "IterateAccounts s consumer st = accountStore_iterateAccounts (accountStore_accounts s) consumer st"

text \<open>
  A consumer that records every address it is given and never stops, and a run of
  \<^verbatim>\<open>UpdateAccount\<close> calls, one after the other.
\<close>

definition record_address :: "bytes list \<Rightarrow> bytes \<Rightarrow> bytes \<Rightarrow> bool \<times> bytes list" where
  "record_address seen addr acc = (False, seen @ [addr])"

definition visited_accounts :: "store \<Rightarrow> bytes list" where
  "visited_accounts s = IterateAccounts s record_address []"

definition update_accounts :: "store \<Rightarrow> (bytes \<times> bytes) list \<Rightarrow> store" where
  "update_accounts s us = foldl (\<lambda>s (addr, acc). UpdateAccount s addr acc) s us"

subsection \<open>Validators\<close>

text \<open>
  Modelled from the spec: the validator store (\<^verbatim>\<open>updateValidator\<close>, its total and its address
  list) is not among the sources. The store keeps, in memory, a running total and the list
  of validator addresses in the order of their numbers. \<open>updateValidator\<close> assigns a fresh
  number on first sight of an address, one past the current maximum, which is the total
  (numbers start at 0), and appends the address; for an address already in the list it keeps
  the number the address has. The number is carried inside the record that is enqueued under
  the validator prefix followed by the address.
\<close>

record validator =
  val_Address :: bytes
  val_Number :: i32
  val_data :: bytes

definition validator_Bytes :: "validator \<Rightarrow> bytes" where
  "validator_Bytes v = Uint32ToSlice (val_Number v) @ val_data v"

definition validatorKey :: "bytes \<Rightarrow> bytes" where
  "validatorKey addr = validatorPrefix @ addr"

fun index_of :: "bytes list \<Rightarrow> bytes \<Rightarrow> nat option" where
  "index_of [] a = None"
| "index_of (x # xs) a = (if x = a then Some 0 else map_option Suc (index_of xs a))"

definition validatorStore_updateValidator ::
    "bytes list \<Rightarrow> i32 \<Rightarrow> batch \<Rightarrow> validator \<Rightarrow> bytes list \<times> i32 \<times> batch" where
  "validatorStore_updateValidator addrs tot b v =
     (case index_of addrs (val_Address v) of
        Some n \<Rightarrow>
          (addrs, tot,
           batch_Put b (validatorKey (val_Address v)) (validator_Bytes (v\<lparr>val_Number := of_nat n\<rparr>)))
      | None \<Rightarrow>
          (addrs @ [val_Address v], tot + 1,
           batch_Put b (validatorKey (val_Address v)) (validator_Bytes (v\<lparr>val_Number := tot\<rparr>))))"

definition UpdateValidator :: "store \<Rightarrow> validator \<Rightarrow> store" where
  "UpdateValidator s v =
     (case validatorStore_updateValidator (validatorStore_addresses s) (validatorStore_total s)
             (batch s) v of
        (addrs', tot', b') \<Rightarrow>
          s\<lparr>validatorStore_addresses := addrs', validatorStore_total := tot', batch := b'\<rparr>)"

definition TotalValidators :: "store \<Rightarrow> i32" where
  "TotalValidators s = validatorStore_total s"

definition ValidatorAddresses :: "store \<Rightarrow> bytes list" where
  "ValidatorAddresses s = validatorStore_addresses s"

definition update_validators :: "store \<Rightarrow> validator list \<Rightarrow> store" where
  "update_validators s vs = foldl UpdateValidator s vs"

text \<open>The record enqueued for a validator whose address has position \<open>n\<close> in the list.\<close>

definition numbered_put :: "bytes list \<Rightarrow> validator \<Rightarrow> bytes \<times> bytes" where
  "numbered_put addrs v =
     (validatorKey (val_Address v),
      validator_Bytes (v\<lparr>val_Number := (case index_of addrs (val_Address v) of
                                            Some n \<Rightarrow> of_nat n | None \<Rightarrow> 0)\<rparr>))"

subsection \<open>Locking\<close>

text \<open>
  What each public method of the store does with the mutex \<^verbatim>\<open>s.lk\<close> on entry (released by
  the matching deferred call): \<^verbatim>\<open>Lock\<close>, \<^verbatim>\<open>RLock\<close>, or nothing.
\<close>

datatype lock_mode = Exclusive | Shared | NoLock

datatype operation =
    OpClose | OpSaveBlock | OpBlock | OpBlockHeight | OpBlockHash | OpPublicKey
  | OpTransaction | OpAnyRecentTransaction | OpHasAccount | OpAccount | OpTotalAccounts
  | OpIterateAccounts | OpUpdateAccount | OpHasValidator | OpValidatorAddresses
  | OpValidator | OpValidatorByNumber | OpTotalValidators | OpIterateValidators
  | OpUpdateValidator | OpLastCertificate | OpWriteBatch

definition all_operations :: "operation list" where
  "all_operations =
     [OpClose, OpSaveBlock, OpBlock, OpBlockHeight, OpBlockHash, OpPublicKey, OpTransaction,
      OpAnyRecentTransaction, OpHasAccount, OpAccount, OpTotalAccounts, OpIterateAccounts,
      OpUpdateAccount, OpHasValidator, OpValidatorAddresses, OpValidator, OpValidatorByNumber,
      OpTotalValidators, OpIterateValidators, OpUpdateValidator, OpLastCertificate, OpWriteBatch]"

fun lock_of :: "operation \<Rightarrow> lock_mode" where
  "lock_of OpPublicKey = NoLock"
| "lock_of OpValidatorAddresses = Shared"
| "lock_of _ = Exclusive"


subsection \<open>Concrete stores and a concrete certificate type\<close>

text \<open>A certificate reduced to its height, encoded in four bytes, for concrete runs.\<close>

definition height_cert :: "u32 cert_ops" where
  "height_cert =
     \<lparr>cert_Height = (\<lambda>c. c),
      cert_Encode = (\<lambda>c. Some (Uint32ToSlice c)),
      cert_Decode = (\<lambda>bs. if length bs < 4 then None else Some (SliceToUint32 bs))\<rparr>"

definition store_of :: "(bytes \<times> bytes) list \<Rightarrow> store" where
  "store_of t = emptyStore\<lparr>db := \<lparr>kv = t, write_fault = None\<rparr>\<rparr>"

text \<open>
  A 40-byte block at height 1 and a position record for transaction \<open>[7]\<close> with offset
  \<open>2^32 - 1\<close> and length 2.
\<close>

definition wrap_store :: store where
  "wrap_store = store_of
     [(txKey [7], encode_region \<lparr>height = 1, offset = 0xFFFFFFFF, length_of = 2\<rparr>),
      (blockKey 1, replicate 40 0)]"

text \<open>
  A 64-byte block at height 1 and a position record for transaction \<open>[9]\<close> with offset
  \<open>2^32 - 16\<close> and length 32.
\<close>

definition stale_store :: store where
  "stale_store = store_of
     [(txKey [9], encode_region \<lparr>height = 1, offset = 0xFFFFFFF0, length_of = 0x20\<rparr>),
      (blockKey 1, replicate 64 0)]"

text \<open>
  The stored value of a block at height 1: a 32-byte hash, 8 more bytes, a 120-byte
  transaction \<open>[5]\<close> at offsets 40 to 160 of the stored value, and 40 bytes after it.
\<close>

definition tx0_store :: store where
  "tx0_store = store_of
     [(txKey [5], encode_region \<lparr>height = 1, offset = 40, length_of = 120\<rparr>),
      (blockKey 1, replicate 32 0xAA @ replicate 8 0xBB @ replicate 120 0xCC @ replicate 40 0xDD)]"

text \<open>A store with three pending writes, and the same store on an engine whose write fails.\<close>

definition pending_store :: store where
  "pending_store = emptyStore\<lparr>batch := [([1], [10]), ([2], [20]), ([1], [11])]\<rparr>"

definition failing_store :: store where
  "failing_store = pending_store\<lparr>db := \<lparr>kv = [], write_fault = Some ErrEngine\<rparr>\<rparr>"

text \<open>
  The writes one \<^verbatim>\<open>SaveBlock\<close> enqueues, in order: the block, the height index, the position
  records, the last certificate.
\<close>

definition tx_puts :: "u32 \<Rightarrow> block \<Rightarrow> batch" where
  "tx_puts h blk =
     map (\<lambda>(t, r). (txKey (tx_ID t), encode_region r))
       (zip (blk_Transactions blk)
            (regions h (length (blk_Hash blk) + length (blk_header blk)) (blk_Transactions blk)))"

definition block_puts :: "u32 \<Rightarrow> block \<Rightarrow> bytes \<Rightarrow> batch" where
  "block_puts h blk cb =
     [(blockKey h, blk_Hash blk @ block_bytes blk), (blockHashKey (blk_Hash blk), Uint32ToSlice h)]
       @ tx_puts h blk @ [(lastInfoKey, Uint32ToSlice lastStoreVersion @ cb)]"

text \<open>Two blocks with distinct hashes; the first holds one 120-byte transaction.\<close>

definition block_a :: block where
  "block_a = \<lparr>blk_Hash = replicate 32 0xA1, blk_header = replicate 8 0,
               blk_Transactions = [\<lparr>tx_ID = [5], tx_bytes = replicate 120 0xCC\<rparr>]\<rparr>"

definition block_b :: block where
  "block_b = \<lparr>blk_Hash = replicate 32 0xB2, blk_header = replicate 8 1, blk_Transactions = []\<rparr>"

section \<open>Properties\<close>

subsection \<open>Integers in bytes\<close>

lemma nat_bytes4_nested:
  "n mod 256 + 256 * (n div 256 mod 256 + 256 * (n div 256 div 256 mod 256 + 256 * (n div 256 div 256 div 256))) = (n::nat)"
  by (simp only: mod_mult_div_eq)

lemma nat_bytes4:
  "n mod 256 + (256 * (n div 256 mod 256) + (65536 * (n div 65536 mod 256) + 16777216 * (n div 16777216))) = (n::nat)"
proof -
  have a: "n div 65536 = n div 256 div 256" by (simp add: div_mult2_eq)
  have b: "n div 16777216 = n div 256 div 256 div 256" by (simp add: div_mult2_eq)
  show ?thesis
    unfolding a b using nat_bytes4_nested [of n] by (simp only: distrib_left mult.assoc [symmetric])
qed

lemma le_value: "foldr (\<lambda>b acc. unat b + 256 * acc) (Uint32ToSlice w) 0 = unat w"
proof -
  have "unat w < 2 ^ 32" using unsigned_less [of w] by simp
  then show ?thesis
    unfolding Uint32ToSlice_def
    by (simp add: unat_of_nat nat_bytes4)
qed

lemma length_Uint32ToSlice [simp]: "length (Uint32ToSlice w) = 4"
  by (simp add: Uint32ToSlice_def)

lemma SliceToUint32_Uint32ToSlice [simp]: "SliceToUint32 (Uint32ToSlice w) = w"
  unfolding SliceToUint32_def by (simp add: le_value)

lemma Uint32ToSlice_inj: "Uint32ToSlice a = Uint32ToSlice b \<Longrightarrow> a = b"
  by (metis SliceToUint32_Uint32ToSlice)

lemma decode_encode_region [simp]: "decode_region (encode_region r) = Some r"
  by (simp add: decode_region_def encode_region_def)

subsection \<open>The engine\<close>

lemma map_of_apply_puts:
  "map_of (apply_puts t b) k = (case map_of (rev b) k of Some v \<Rightarrow> Some v | None \<Rightarrow> map_of t k)"
  by (induction b arbitrary: t) (auto simp: update_conv' map_add_def split: option.splits)

lemma go_slice_None: "hi < lo \<Longrightarrow> go_slice xs lo hi = None"
  by (simp add: go_slice_def)

lemma guard_iff:
  fixes e :: u32
  assumes "length data < 2 ^ 32"
  shows "(e > of_nat (length data)) = (unat e > length data)"
proof -
  have "unat (of_nat (length data) :: u32) = length data"
    using assms by (simp add: unat_of_nat)
  then show ?thesis by (simp add: word_less_nat_alt)
qed

subsection \<open>Transaction lookup\<close>

text \<open>
  C10. The guard of \<^verbatim>\<open>Transaction\<close> adds offset and length in wrapping 32-bit arithmetic.
  When the true sum reaches \<open>2^32\<close>, the wrapped end is below the start; if it is also within
  the stored block, the guard does not fire and the slice \<^verbatim>\<open>data[start:end]\<close> is attempted
  with start above end, which panics: the result is not \<open>ErrBadOffset\<close>.
\<close>

theorem Transaction_wrapped_guard:
  assumes tx: "txStore_tx (db s) txid = Ok pos"
      and blk: "blockStore_block (db s) (height pos) = Ok data"
      and wrap: "2 ^ 32 \<le> unat (offset pos) + unat (length_of pos)"
      and len: "length data < 2 ^ 32"
      and small: "unat (offset pos + length_of pos) \<le> length data"
      and hdr: "HashSize + 5 \<le> length data"
  shows "offset pos + length_of pos < offset pos \<and> Transaction s txid = Panic"
proof -
  have lo: "unat (offset pos) < 2 ^ 32" and ll: "unat (length_of pos) < 2 ^ 32"
    using unsigned_less [of "offset pos"] unsigned_less [of "length_of pos"] by simp_all
  have e: "unat (offset pos + length_of pos) = unat (offset pos) + unat (length_of pos) - 2 ^ 32"
    using wrap lo ll by (simp add: unat_word_ariths mod_if)
  have lt: "unat (offset pos + length_of pos) < unat (offset pos)"
    using e wrap ll by linarith
  have g: "\<not> (offset pos + length_of pos > of_nat (length data))"
    using guard_iff [OF len] small by simp
  have bt: "go_slice data (HashSize + 1) (HashSize + 5) = Some (take 4 (drop (HashSize + 1) data))"
    using hdr by (simp add: go_slice_def)
  have sl: "go_slice data (unat (offset pos)) (unat (offset pos + length_of pos)) = None"
    using lt by (rule go_slice_None)
  show ?thesis
    using lt g bt sl tx blk by (simp add: Transaction_def Let_def word_less_nat_alt)
qed


lemmas key_defs = txKey_def blockKey_def blockHashKey_def lastInfoKey_def txPrefix_def
  blockPrefix_def blockHeightPrefix_def Uint32ToSliceBE_def

lemma wrap_tx:
  "txStore_tx (db wrap_store) [7] = Ok \<lparr>height = 1, offset = 0xFFFFFFFF, length_of = 2\<rparr>"
  by (simp add: wrap_store_def store_of_def txStore_tx_def tryGet_def db_Get_def txKey_def)

lemma wrap_blk: "blockStore_block (db wrap_store) 1 = Ok (replicate 40 0)"
  by (simp add: wrap_store_def store_of_def blockStore_block_def tryGet_def db_Get_def key_defs
      Uint32ToSlice_def)

theorem Transaction_wrapped_guard_witness:
  "(0xFFFFFFFF + 2 :: u32) < 0xFFFFFFFF \<and> Transaction wrap_store [7] = Panic"
  using Transaction_wrapped_guard [of wrap_store "[7]"
      "\<lparr>height = 1, offset = 0xFFFFFFFF, length_of = 2\<rparr>" "replicate 40 0"]
  by (simp add: wrap_tx wrap_blk HashSize_def)

lemma stale_tx:
  "txStore_tx (db stale_store) [9] = Ok \<lparr>height = 1, offset = 0xFFFFFFF0, length_of = 0x20\<rparr>"
  by (simp add: stale_store_def store_of_def txStore_tx_def tryGet_def db_Get_def txKey_def)

lemma stale_blk: "blockStore_block (db stale_store) 1 = Ok (replicate 64 0)"
  by (simp add: stale_store_def store_of_def blockStore_block_def tryGet_def db_Get_def key_defs
      Uint32ToSlice_def)

text \<open>
  When the sum of offset and length does not wrap, a range beyond the stored block is
  rejected with \<open>ErrBadOffset\<close>.
\<close>

lemma Transaction_bad_offset:
  assumes tx: "txStore_tx (db s) txid = Ok pos"
      and blk: "blockStore_block (db s) (height pos) = Ok data"
      and exceeds: "length data < unat (offset pos) + unat (length_of pos)"
      and nowrap: "unat (offset pos) + unat (length_of pos) < 2 ^ 32"
  shows "Transaction s txid = Err ErrBadOffset"
proof -
  have len: "length data < 2 ^ 32" using exceeds nowrap by simp
  have e: "unat (offset pos + length_of pos) = unat (offset pos) + unat (length_of pos)"
    using nowrap by (simp add: unat_word_ariths)
  have "offset pos + length_of pos > of_nat (length data)"
    using guard_iff [OF len] e exceeds by simp
  then show ?thesis using tx blk by (simp add: Transaction_def Let_def)
qed

text \<open>
  C1. A position record whose range exceeds the stored block must give \<open>ErrBadOffset\<close>. The
  record (height 1, offset \<open>2^32 - 16\<close>, length 32) addresses bytes far beyond the 64 stored
  bytes of block 1, yet \<^verbatim>\<open>Transaction\<close> panics on it: the wrapped end is 16, the guard does
  not fire, and the slice bounds are inverted.
\<close>

theorem Transaction_stale_record_panics:
  "txStore_tx (db stale_store) [9] = Ok \<lparr>height = 1, offset = 0xFFFFFFF0, length_of = 0x20\<rparr> \<and>
   blockStore_block (db stale_store) 1 = Ok (replicate 64 0) \<and>
   length (replicate 64 (0::byte)) < unat (0xFFFFFFF0 :: u32) + unat (0x20 :: u32) \<and>
   Transaction stale_store [9] = Panic"
  by (simp add: stale_tx stale_blk Transaction_def Let_def go_slice_def HashSize_def)

lemma tryGet_map_of: "tryGet d k = (case map_of (kv d) k of None \<Rightarrow> Err ErrNotFound | Some v \<Rightarrow> Ok v)"
  by (simp add: tryGet_def db_Get_def split: option.splits)

text \<open>
  C2 (amended). \<^verbatim>\<open>Transaction\<close> of an id with no position record is the not-found error. For
  an id recorded with byte range \<open>[o, o+l)\<close> in block \<open>h\<close>, where the range lies within the
  stored value of the block and that value holds at least 37 bytes, \<^verbatim>\<open>Transaction\<close> returns
  exactly the bytes \<open>[o, o+l)\<close> of the stored value, which is the 32-byte hash followed by
  \<^verbatim>\<open>Block(h).Data\<close>: offsets count from the start of the stored value, so for \<open>o \<ge> 32\<close> the
  bytes are \<^verbatim>\<open>Block(h).Data[o-32 : o+l-32]\<close>.
\<close>

theorem Transaction_bytes:
  "(map_of (kv (db s)) (txKey txid) = None \<longrightarrow> Transaction s txid = Err ErrNotFound) \<and>
   (txStore_tx (db s) txid = Ok pos \<and> blockStore_block (db s) (height pos) = Ok data \<and>
    unat (offset pos) + unat (length_of pos) \<le> length data \<and> length data < 2 ^ 32 \<and>
    HashSize + 5 \<le> length data \<longrightarrow>
      Transaction s txid =
        Ok \<lparr>TxID = txid, TxHeight = height pos,
            BlockTime = SliceToUint32 (take 4 (drop (HashSize + 1) data)),
            TxData = take (unat (length_of pos)) (drop (unat (offset pos)) data)\<rparr> \<and>
      Block s (height pos) =
        Ok \<lparr>BlockHash = take HashSize data, Height = height pos, Data = drop HashSize data\<rparr> \<and>
      (HashSize \<le> unat (offset pos) \<longrightarrow>
         take (unat (length_of pos)) (drop (unat (offset pos)) data) =
         take (unat (length_of pos)) (drop (unat (offset pos) - HashSize) (drop HashSize data))))"
proof (intro conjI impI)
  assume "map_of (kv (db s)) (txKey txid) = None"
  then show "Transaction s txid = Err ErrNotFound"
    by (simp add: Transaction_def txStore_tx_def tryGet_map_of)
next
  assume a: "txStore_tx (db s) txid = Ok pos \<and> blockStore_block (db s) (height pos) = Ok data \<and>
    unat (offset pos) + unat (length_of pos) \<le> length data \<and> length data < 2 ^ 32 \<and>
    HashSize + 5 \<le> length data"
  then have tx: "txStore_tx (db s) txid = Ok pos"
    and blk: "blockStore_block (db s) (height pos) = Ok data"
    and rng: "unat (offset pos) + unat (length_of pos) \<le> length data"
    and len: "length data < 2 ^ 32"
    and hdr: "HashSize + 5 \<le> length data" by simp_all
  have e: "unat (offset pos + length_of pos) = unat (offset pos) + unat (length_of pos)"
    using rng len by (simp add: unat_word_ariths)
  have g: "\<not> (offset pos + length_of pos > of_nat (length data))"
    using guard_iff [OF len] e rng by simp
  have bt: "go_slice data (HashSize + 1) (HashSize + 5) = Some (take 4 (drop (HashSize + 1) data))"
    using hdr by (simp add: go_slice_def)
  have sl: "go_slice data (unat (offset pos)) (unat (offset pos + length_of pos)) =
      Some (take (unat (length_of pos)) (drop (unat (offset pos)) data))"
    using e rng by (simp add: go_slice_def)
  show "Transaction s txid =
        Ok \<lparr>TxID = txid, TxHeight = height pos,
            BlockTime = SliceToUint32 (take 4 (drop (HashSize + 1) data)),
            TxData = take (unat (length_of pos)) (drop (unat (offset pos)) data)\<rparr>"
    using g bt sl tx blk by (simp add: Transaction_def Let_def)
  show "Block s (height pos) =
        Ok \<lparr>BlockHash = take HashSize data, Height = height pos, Data = drop HashSize data\<rparr>"
    using blk hdr by (simp add: Block_def go_slice_def hash_FromBytes_def)
next
  assume "HashSize \<le> unat (offset pos)"
  then show "take (unat (length_of pos)) (drop (unat (offset pos)) data) =
         take (unat (length_of pos)) (drop (unat (offset pos) - HashSize) (drop HashSize data))"
    by simp
qed

lemma tx0_tx: "txStore_tx (db tx0_store) [5] = Ok \<lparr>height = 1, offset = 40, length_of = 120\<rparr>"
  by (simp add: tx0_store_def store_of_def txStore_tx_def tryGet_def db_Get_def txKey_def)

lemma tx0_blk: "blockStore_block (db tx0_store) 1 =
    Ok (replicate 32 0xAA @ replicate 8 0xBB @ replicate 120 0xCC @ replicate 40 0xDD)"
  by (simp add: tx0_store_def store_of_def blockStore_block_def tryGet_def db_Get_def key_defs
      Uint32ToSlice_def)

lemma tx0_absent: "map_of (kv (db tx0_store)) (txKey [6]) = None"
  by (simp add: tx0_store_def store_of_def key_defs Uint32ToSlice_def)

theorem Transaction_bytes_witness:
  "Transaction tx0_store [6] = Err ErrNotFound \<and>
   Transaction tx0_store [5] =
     Ok \<lparr>TxID = [5], TxHeight = 1, BlockTime = SliceToUint32 (replicate 4 0xBB), TxData = replicate 120 0xCC\<rparr> \<and>
   Block tx0_store 1 =
     Ok \<lparr>BlockHash = replicate 32 0xAA, Height = 1,
         Data = replicate 8 0xBB @ replicate 120 0xCC @ replicate 40 0xDD\<rparr> \<and>
   go_slice (replicate 8 0xBB @ replicate 120 0xCC @ replicate 40 (0xDD::byte)) 8 128 = Some (replicate 120 0xCC)"
  using Transaction_bytes [where s = tx0_store and txid = "[6]", THEN conjunct1]
    Transaction_bytes [where s = tx0_store and txid = "[5]"
      and pos = "\<lparr>height = 1, offset = 40, length_of = 120\<rparr>"
      and data = "replicate 32 0xAA @ replicate 8 0xBB @ replicate 120 0xCC @ replicate 40 0xDD",
      THEN conjunct2]
  by (simp add: tx0_tx tx0_blk tx0_absent HashSize_def go_slice_def)

text \<open>
  C2, as stated, fails: for the transaction at offsets 40 to 160 of the stored value of block
  1, \<^verbatim>\<open>Transaction\<close> returns the 120 bytes at 40 to 160 of the stored value, while
  \<^verbatim>\<open>Block(1).Data[40:160]\<close> is the bytes at 72 to 192 of the stored value, and they differ.
\<close>

theorem Transaction_not_Block_Data_slice:
  "Transaction tx0_store [5] =
     Ok \<lparr>TxID = [5], TxHeight = 1, BlockTime = SliceToUint32 (replicate 4 0xBB), TxData = replicate 120 0xCC\<rparr> \<and>
   Block tx0_store 1 =
     Ok \<lparr>BlockHash = replicate 32 0xAA, Height = 1,
         Data = replicate 8 0xBB @ replicate 120 0xCC @ replicate 40 0xDD\<rparr> \<and>
   go_slice (replicate 8 0xBB @ replicate 120 0xCC @ replicate 40 (0xDD::byte)) 40 160 =
     Some (replicate 88 0xCC @ replicate 32 0xDD) \<and>
   replicate 88 0xCC @ replicate 32 0xDD \<noteq> replicate 120 (0xCC::byte)"
proof -
  have "last (replicate 88 0xCC @ replicate 32 0xDD) \<noteq> last (replicate 120 (0xCC::byte))"
    by simp
  then have ne: "replicate 88 0xCC @ replicate 32 0xDD \<noteq> replicate 120 (0xCC::byte)"
    by metis
  show ?thesis
    using ne
    by (simp add: tx0_tx tx0_blk Transaction_def Block_def Let_def go_slice_def HashSize_def
        hash_FromBytes_def)
qed

subsection \<open>The last certificate: decoding\<close>

text \<open>
  C6 (amended). \<^verbatim>\<open>LastCertificate\<close> is nil when no record exists under the singleton key, and
  also nil when the record is too short for the 4-byte version or its certificate does not
  decode; otherwise it is the decoded certificate. The version read is not examined.
\<close>

theorem LastCertificate_cases:
  "(map_of (kv (db s)) lastInfoKey = None \<longrightarrow> LastCertificate C s = None) \<and>
   (map_of (kv (db s)) lastInfoKey = Some data \<and> length data < 4 \<longrightarrow> LastCertificate C s = None) \<and>
   (map_of (kv (db s)) lastInfoKey = Some data \<and> 4 \<le> length data \<longrightarrow>
      LastCertificate C s = cert_Decode C (drop 4 data))"
  by (simp add: LastCertificate_def tryGet_map_of)

text \<open>
  C6, as stated, fails: a one-byte record under the singleton key, which fails version
  decoding, gives the same result as the absent key.
\<close>

theorem LastCertificate_malformed_is_nil:
  "LastCertificate height_cert (store_of [(lastInfoKey, [1])]) = LastCertificate height_cert emptyStore"
  by (simp add: LastCertificate_def tryGet_map_of store_of_def emptyStore_def)

theorem LastCertificate_cases_witness:
  "LastCertificate height_cert emptyStore = None \<and>
   LastCertificate height_cert (store_of [(lastInfoKey, [1])]) = None \<and>
   LastCertificate height_cert (store_of [(lastInfoKey, [1, 0, 0, 0, 9, 9])]) = None \<and>
   LastCertificate height_cert (store_of [(lastInfoKey, [1, 0, 0, 0, 5, 0, 0, 0])]) = Some 5"
  using LastCertificate_cases [where s = emptyStore and C = height_cert, THEN conjunct1]
    LastCertificate_cases [where s = "store_of [(lastInfoKey, [1])]" and data = "[1]" and C = height_cert]
    LastCertificate_cases [where s = "store_of [(lastInfoKey, [1, 0, 0, 0, 9, 9])]"
      and data = "[1, 0, 0, 0, 9, 9]" and C = height_cert]
    LastCertificate_cases [where s = "store_of [(lastInfoKey, [1, 0, 0, 0, 5, 0, 0, 0])]"
      and data = "[1, 0, 0, 0, 5, 0, 0, 0]" and C = height_cert]
  by (simp add: store_of_def emptyStore_def height_cert_def SliceToUint32_def)

subsection \<open>Writing the batch\<close>

lemma map_of_append_case:
  "map_of (xs @ ys) k = (case map_of xs k of Some v \<Rightarrow> Some v | None \<Rightarrow> map_of ys k)"
  by (simp add: map_add_def split: option.splits)

text \<open>
  C4. On an engine whose write succeeds, \<^verbatim>\<open>WriteBatch\<close> returns no error, leaves the pending
  batch empty, and every later read of a key sees the last value enqueued for it (keys the
  batch did not touch read as before). When the engine write fails with \<open>e\<close>, \<^verbatim>\<open>WriteBatch\<close>
  returns \<open>e\<close> and the store, with its pending batch, is unchanged. On an empty batch and
  a working engine, \<^verbatim>\<open>WriteBatch\<close> succeeds and changes nothing.
\<close>

theorem WriteBatch_flush:
  "(write_fault (db s) = None \<longrightarrow>
      fst (WriteBatch s) = None \<and> batch (snd (WriteBatch s)) = [] \<and>
      (\<forall>k. tryGet (db (snd (WriteBatch s))) k =
             (case map_of (rev (batch s)) k of Some v \<Rightarrow> Ok v | None \<Rightarrow> tryGet (db s) k))) \<and>
   (write_fault (db s) = Some e \<longrightarrow> WriteBatch s = (Some e, s)) \<and>
   (write_fault (db s) = None \<and> batch s = [] \<longrightarrow> WriteBatch s = (None, s))"
  by (auto simp: WriteBatch_def db_Write_def tryGet_map_of map_of_apply_puts split: option.splits)

theorem WriteBatch_flush_witness:
  "fst (WriteBatch pending_store) = None \<and> batch (snd (WriteBatch pending_store)) = [] \<and>
   tryGet (db (snd (WriteBatch pending_store))) [1] = Ok [11] \<and>
   tryGet (db (snd (WriteBatch pending_store))) [2] = Ok [20] \<and>
   tryGet (db (snd (WriteBatch pending_store))) [3] = Err ErrNotFound \<and>
   WriteBatch failing_store = (Some ErrEngine, failing_store) \<and>
   batch failing_store = [([1], [10]), ([2], [20]), ([1], [11])] \<and>
   WriteBatch emptyStore = (None, emptyStore)"
proof -
  have a: "write_fault (db pending_store) = None"
    by (simp add: pending_store_def emptyStore_def)
  have b: "batch pending_store = [([1], [10]), ([2], [20]), ([1], [11])]"
    by (simp add: pending_store_def)
  have c: "tryGet (db pending_store) k = Err ErrNotFound" for k
    by (simp add: pending_store_def emptyStore_def tryGet_map_of)
  have d: "write_fault (db failing_store) = Some ErrEngine"
    by (simp add: failing_store_def)
  have e: "write_fault (db emptyStore) = None \<and> batch emptyStore = []"
    by (simp add: emptyStore_def)
  have f: "batch failing_store = [([1], [10]), ([2], [20]), ([1], [11])]"
    by (simp add: failing_store_def pending_store_def)
  from WriteBatch_flush [where s = pending_store, THEN conjunct1] a
  have p: "fst (WriteBatch pending_store) = None \<and> batch (snd (WriteBatch pending_store)) = [] \<and>
      (\<forall>k. tryGet (db (snd (WriteBatch pending_store))) k =
             (case map_of (rev (batch pending_store)) k of Some v \<Rightarrow> Ok v | None \<Rightarrow> tryGet (db pending_store) k))"
    by blast
  from WriteBatch_flush [where s = failing_store and e = ErrEngine, THEN conjunct2, THEN conjunct1] d
  have q: "WriteBatch failing_store = (Some ErrEngine, failing_store)" by blast
  from WriteBatch_flush [where s = emptyStore, THEN conjunct2, THEN conjunct2] e
  have r: "WriteBatch emptyStore = (None, emptyStore)" by blast
  show ?thesis using p q r by (simp add: b c f)
qed

subsection \<open>Committing blocks\<close>

lemma saveTxs_regions:
  "saveTxs b ts (regions h pos ts) =
     Some (b @ map (\<lambda>(t, r). (txKey (tx_ID t), encode_region r)) (zip ts (regions h pos ts)))"
  by (induction ts arbitrary: b pos) (simp_all add: txStore_saveTx_def batch_Put_def)

lemma SaveBlock_Ok:
  "SaveBlock C s blk cert = Ok s1 \<longleftrightarrow>
     (\<exists>cb. cert_Encode C cert = Some cb \<and>
           s1 = s\<lparr>batch := batch s @ block_puts (cert_Height C cert) blk cb\<rparr>)"
  by (auto simp: SaveBlock_def blockStore_saveBlock_def Let_def saveTxs_regions batch_Put_def
      block_puts_def tx_puts_def split: option.splits)

lemma SaveBlock_not_Err: "SaveBlock C s blk cert \<noteq> Err e"
  by (simp add: SaveBlock_def blockStore_saveBlock_def Let_def saveTxs_regions split: option.splits)

lemma tx_puts_keys: "(k, v) \<in> set (tx_puts h blk) \<Longrightarrow> hd k = 3"
  by (auto simp: tx_puts_def txKey_def txPrefix_def dest!: set_zip_leftD)

lemma map_of_tx_puts_None: "hd k \<noteq> 3 \<Longrightarrow> map_of (rev (tx_puts h blk)) k = None"
  using tx_puts_keys by (fastforce simp: map_of_eq_None_iff)

lemma blockKey_inj: "blockKey a = blockKey b \<longleftrightarrow> a = b"
  by (auto simp: blockKey_def Uint32ToSliceBE_def dest: Uint32ToSlice_inj)

lemma hd_keys [simp]:
  "hd (blockKey h) = 1" "hd (blockHashKey g) = 9" "hd lastInfoKey = 0" "hd (txKey i) = 3"
  by (simp_all add: key_defs)

lemma keys_ne [simp]:
  "blockKey h \<noteq> blockHashKey g" "blockHashKey g \<noteq> blockKey h"
  "blockKey h \<noteq> lastInfoKey" "lastInfoKey \<noteq> blockKey h"
  "blockHashKey g \<noteq> lastInfoKey" "lastInfoKey \<noteq> blockHashKey g"
  by (simp_all add: key_defs)

lemma blockHashKey_inj [simp]: "blockHashKey a = blockHashKey b \<longleftrightarrow> a = b"
  by (simp add: blockHashKey_def)

lemma map_of_block_puts_blockKey:
  "map_of (rev (block_puts h blk cb)) (blockKey h') =
     (if h' = h then Some (blk_Hash blk @ block_bytes blk) else None)"
  by (simp add: block_puts_def map_add_def map_of_tx_puts_None blockKey_inj)

lemma map_of_block_puts_blockHashKey:
  "map_of (rev (block_puts h blk cb)) (blockHashKey g) =
     (if g = blk_Hash blk then Some (Uint32ToSlice h) else None)"
  by (simp add: block_puts_def map_add_def map_of_tx_puts_None)

lemma map_of_block_puts_lastInfoKey:
  "map_of (rev (block_puts h blk cb)) lastInfoKey = Some (Uint32ToSlice lastStoreVersion @ cb)"
  by (simp add: block_puts_def)

lemma commit_step:
  assumes "SaveBlock C s blk cert = Ok s1" and "WriteBatch s1 = (None, s2)"
  shows "\<exists>cb. cert_Encode C cert = Some cb \<and> batch s2 = [] \<and> write_fault (db s2) = None \<and>
           (\<forall>k. map_of (kv (db s2)) k =
              (case map_of (rev (block_puts (cert_Height C cert) blk cb)) k of
                 Some v \<Rightarrow> Some v
               | None \<Rightarrow> (case map_of (rev (batch s)) k of
                            Some v \<Rightarrow> Some v
                          | None \<Rightarrow> map_of (kv (db s)) k)))"
proof -
  from assms(1) obtain cb where cb: "cert_Encode C cert = Some cb"
    and s1: "s1 = s\<lparr>batch := batch s @ block_puts (cert_Height C cert) blk cb\<rparr>"
    by (auto simp: SaveBlock_Ok)
  from assms(2) s1 have "write_fault (db s) = None"
    and s2: "s2 = s1\<lparr>db := (db s)\<lparr>kv := apply_puts (kv (db s)) (batch s1)\<rparr>, batch := []\<rparr>"
    by (auto simp: WriteBatch_def db_Write_def split: option.splits)
  then show ?thesis
    using cb s1 by (auto simp: map_of_apply_puts map_of_append_case split: option.splits)
qed

lemma commit_all_append:
  "commit_all C s (xs @ ys) =
     (case commit_all C s xs of Ok s' \<Rightarrow> commit_all C s' ys | Err e \<Rightarrow> Err e | Panic \<Rightarrow> Panic)"
  by (induction xs arbitrary: s) (auto split: result.splits option.splits prod.splits)

lemma commit_one:
  "commit_all C s [(blk, cert)] = Ok s2 \<longleftrightarrow>
     (\<exists>s1. SaveBlock C s blk cert = Ok s1 \<and> WriteBatch s1 = (None, s2))"
  by (auto split: result.splits option.splits prod.splits)

text \<open>
  C5. \<^verbatim>\<open>LastCertificate\<close> is nil on a store in which no block was ever committed, and after
  committing blocks in order, each \<^verbatim>\<open>SaveBlock\<close> followed by a successful \<^verbatim>\<open>WriteBatch\<close>, it is
  the certificate passed with the last block (given that the certificate's encoding decodes to
  it): every \<^verbatim>\<open>SaveBlock\<close> overwrites the singleton record.
\<close>

theorem LastCertificate_last:
  "LastCertificate C emptyStore = None \<and>
   (commit_all C s0 (bs @ [(blk, cert)]) = Ok s \<and>
    (\<forall>cb. cert_Encode C cert = Some cb \<longrightarrow> cert_Decode C cb = Some cert) \<longrightarrow>
      LastCertificate C s = Some cert)"
proof (intro conjI impI)
  show "LastCertificate C emptyStore = None"
    by (simp add: LastCertificate_def tryGet_map_of emptyStore_def)
next
  assume a: "commit_all C s0 (bs @ [(blk, cert)]) = Ok s \<and>
    (\<forall>cb. cert_Encode C cert = Some cb \<longrightarrow> cert_Decode C cb = Some cert)"
  then obtain s' s1 where "SaveBlock C s' blk cert = Ok s1" and "WriteBatch s1 = (None, s)"
    by (auto simp: commit_all_append split: result.splits option.splits prod.splits)
  from commit_step [OF this] obtain cb where cb: "cert_Encode C cert = Some cb"
    and m: "map_of (kv (db s)) lastInfoKey = Some (Uint32ToSlice lastStoreVersion @ cb)"
    by (auto simp: map_of_block_puts_lastInfoKey)
  from a cb have "cert_Decode C cb = Some cert" by blast
  then show "LastCertificate C s = Some cert"
    using m by (simp add: LastCertificate_def tryGet_map_of)
qed

lemma commit_all_Ok:
  "write_fault (db s) = None \<Longrightarrow> \<forall>(b, c) \<in> set bs. cert_Encode C c \<noteq> None \<Longrightarrow>
     \<exists>s'. commit_all C s bs = Ok s'"
proof (induction bs arbitrary: s)
  case Nil
  then show ?case by simp
next
  case (Cons x bs)
  obtain blk cert where x: "x = (blk, cert)" by (cases x)
  with Cons.prems obtain cb where cb: "cert_Encode C cert = Some cb" by auto
  define s1 where "s1 = s\<lparr>batch := batch s @ block_puts (cert_Height C cert) blk cb\<rparr>"
  have sb: "SaveBlock C s blk cert = Ok s1" using cb by (simp add: SaveBlock_Ok s1_def)
  define s2 where "s2 = s1\<lparr>db := (db s)\<lparr>kv := apply_puts (kv (db s)) (batch s1)\<rparr>, batch := []\<rparr>"
  have wb: "WriteBatch s1 = (None, s2)"
    using Cons.prems(1) by (simp add: WriteBatch_def db_Write_def s1_def s2_def)
  have "write_fault (db s2) = None" using Cons.prems(1) by (simp add: s2_def)
  with Cons.IH [of s2] Cons.prems(2) obtain s' where "commit_all C s2 bs = Ok s'" by auto
  then show ?case using sb wb x by simp
qed


lemma height_cert_roundtrip:
  "cert_Encode height_cert c = Some cb \<longrightarrow> cert_Decode height_cert cb = Some c"
  by (auto simp: height_cert_def)

theorem LastCertificate_last_witness:
  "LastCertificate height_cert emptyStore = None \<and>
   (\<exists>s. commit_all height_cert emptyStore [(block_a, 1), (block_b, 2)] = Ok s \<and>
        LastCertificate height_cert s = Some 2)"
proof -
  have "\<exists>s. commit_all height_cert emptyStore [(block_a, 1), (block_b, 2)] = Ok s"
    by (rule commit_all_Ok) (simp_all add: emptyStore_def height_cert_def)
  then obtain s where s: "commit_all height_cert emptyStore ([(block_a, 1)] @ [(block_b, 2)]) = Ok s"
    by auto
  have "LastCertificate height_cert s = Some 2"
    using LastCertificate_last [where C = height_cert and ?s0.0 = emptyStore and bs = "[(block_a, 1)]"
        and blk = block_b and cert = 2 and s = s, THEN conjunct2] s height_cert_roundtrip
    by blast
  moreover have "LastCertificate height_cert emptyStore = None"
    using LastCertificate_last [where C = height_cert, THEN conjunct1] .
  ultimately show ?thesis using s by auto
qed

lemma commit_all_Cons_Ok:
  "commit_all C s0 ((b1, c1) # bs) = Ok s \<Longrightarrow>
     \<exists>s1 s2. SaveBlock C s0 b1 c1 = Ok s1 \<and> WriteBatch s1 = (None, s2) \<and> commit_all C s2 bs = Ok s"
  by (auto split: result.splits option.splits prod.splits)

lemma commit_all_preserves_blockKey:
  "commit_all C s2 bs = Ok s \<Longrightarrow> batch s2 = [] \<Longrightarrow> \<forall>(b, c) \<in> set bs. cert_Height C c \<noteq> h \<Longrightarrow>
     map_of (kv (db s)) (blockKey h) = map_of (kv (db s2)) (blockKey h)"
proof (induction bs arbitrary: s2)
  case Nil
  then show ?case by simp
next
  case (Cons x bs)
  obtain b1 c1 where x: "x = (b1, c1)" by (cases x)
  from commit_all_Cons_Ok [OF Cons.prems(1) [unfolded x]]
  obtain s1 s3 where sb: "SaveBlock C s2 b1 c1 = Ok s1"
    and wb: "WriteBatch s1 = (None, s3)" and rest: "commit_all C s3 bs = Ok s"
    by blast
  from commit_step [OF sb wb] obtain cb where e: "batch s3 = []"
    and m: "\<forall>k. map_of (kv (db s3)) k =
              (case map_of (rev (block_puts (cert_Height C c1) b1 cb)) k of
                 Some v \<Rightarrow> Some v
               | None \<Rightarrow> (case map_of (rev (batch s2)) k of
                            Some v \<Rightarrow> Some v
                          | None \<Rightarrow> map_of (kv (db s2)) k))" by blast
  have ne: "cert_Height C c1 \<noteq> h" using Cons.prems(3) x by auto
  have "map_of (kv (db s3)) (blockKey h) = map_of (kv (db s2)) (blockKey h)"
    using m ne Cons.prems(2) by (simp add: map_of_block_puts_blockKey)
  moreover have "map_of (kv (db s)) (blockKey h) = map_of (kv (db s3)) (blockKey h)"
    using Cons.IH [OF rest e] Cons.prems(3) by auto
  ultimately show ?case by simp
qed

lemma commit_all_preserves_blockHashKey:
  "commit_all C s2 bs = Ok s \<Longrightarrow> batch s2 = [] \<Longrightarrow> \<forall>(b, c) \<in> set bs. blk_Hash b \<noteq> g \<Longrightarrow>
     map_of (kv (db s)) (blockHashKey g) = map_of (kv (db s2)) (blockHashKey g)"
proof (induction bs arbitrary: s2)
  case Nil
  then show ?case by simp
next
  case (Cons x bs)
  obtain b1 c1 where x: "x = (b1, c1)" by (cases x)
  from commit_all_Cons_Ok [OF Cons.prems(1) [unfolded x]]
  obtain s1 s3 where sb: "SaveBlock C s2 b1 c1 = Ok s1"
    and wb: "WriteBatch s1 = (None, s3)" and rest: "commit_all C s3 bs = Ok s"
    by blast
  from commit_step [OF sb wb] obtain cb where e: "batch s3 = []"
    and m: "\<forall>k. map_of (kv (db s3)) k =
              (case map_of (rev (block_puts (cert_Height C c1) b1 cb)) k of
                 Some v \<Rightarrow> Some v
               | None \<Rightarrow> (case map_of (rev (batch s2)) k of
                            Some v \<Rightarrow> Some v
                          | None \<Rightarrow> map_of (kv (db s2)) k))" by blast
  have ne: "blk_Hash b1 \<noteq> g" using Cons.prems(3) x by auto
  have "map_of (kv (db s3)) (blockHashKey g) = map_of (kv (db s2)) (blockHashKey g)"
    using m ne Cons.prems(2) by (auto simp add: map_of_block_puts_blockHashKey)
  moreover have "map_of (kv (db s)) (blockHashKey g) = map_of (kv (db s3)) (blockHashKey g)"
    using Cons.IH [OF rest e] Cons.prems(3) by auto
  ultimately show ?case by simp
qed

lemma commit_all_stored:
  "commit_all C s0 bs = Ok s \<Longrightarrow> (blk, cert) \<in> set bs \<Longrightarrow>
   distinct (map (\<lambda>(b, c). cert_Height C c) bs) \<Longrightarrow> distinct (map (\<lambda>(b, c). blk_Hash b) bs) \<Longrightarrow>
     map_of (kv (db s)) (blockKey (cert_Height C cert)) = Some (blk_Hash blk @ block_bytes blk) \<and>
     map_of (kv (db s)) (blockHashKey (blk_Hash blk)) = Some (Uint32ToSlice (cert_Height C cert))"
proof (induction bs arbitrary: s0)
  case Nil
  then show ?case by simp
next
  case (Cons x bs)
  obtain b1 c1 where x: "x = (b1, c1)" by (cases x)
  from commit_all_Cons_Ok [OF Cons.prems(1) [unfolded x]]
  obtain s1 s2 where sb: "SaveBlock C s0 b1 c1 = Ok s1"
    and wb: "WriteBatch s1 = (None, s2)" and rest: "commit_all C s2 bs = Ok s"
    by blast
  show ?case
  proof (cases "(blk, cert) \<in> set bs")
    case True
    then show ?thesis using Cons.IH [OF rest] Cons.prems(3,4) by simp
  next
    case False
    with Cons.prems(2) x have eq: "b1 = blk" "c1 = cert" by auto
    from commit_step [OF sb wb] obtain cb where e: "batch s2 = []"
      and m: "\<forall>k. map_of (kv (db s2)) k =
              (case map_of (rev (block_puts (cert_Height C c1) b1 cb)) k of
                 Some v \<Rightarrow> Some v
               | None \<Rightarrow> (case map_of (rev (batch s0)) k of
                            Some v \<Rightarrow> Some v
                          | None \<Rightarrow> map_of (kv (db s0)) k))" by blast
    have h: "\<forall>(b, c) \<in> set bs. cert_Height C c \<noteq> cert_Height C cert"
      using Cons.prems(3) x eq by (auto simp: image_iff)
    have g: "\<forall>(b, c) \<in> set bs. blk_Hash b \<noteq> blk_Hash blk"
      using Cons.prems(4) x eq by (auto simp: image_iff)
    have "map_of (kv (db s2)) (blockKey (cert_Height C cert)) = Some (blk_Hash blk @ block_bytes blk)"
      using m eq by (simp add: map_of_block_puts_blockKey)
    moreover have "map_of (kv (db s2)) (blockHashKey (blk_Hash blk)) = Some (Uint32ToSlice (cert_Height C cert))"
      using m eq by (simp add: map_of_block_puts_blockHashKey)
    ultimately show ?thesis
      using commit_all_preserves_blockKey [OF rest e h] commit_all_preserves_blockHashKey [OF rest e g]
      by simp
  qed
qed

text \<open>
  C3. For every block committed at height \<open>h\<close> (blocks committed in order, each
  \<^verbatim>\<open>SaveBlock\<close> followed by a successful \<^verbatim>\<open>WriteBatch\<close>, at pairwise distinct heights and with
  pairwise distinct 32-byte hashes): the stored value starts with the block hash,
  \<^verbatim>\<open>Block(h).BlockHash\<close> and \<^verbatim>\<open>BlockHash(h)\<close> are that hash, and \<^verbatim>\<open>BlockHeight\<close> of the hash is
  \<open>h\<close>.
\<close>

theorem committed_block_hash_height:
  assumes "commit_all C s0 bs = Ok s" and "(blk, cert) \<in> set bs"
      and "distinct (map (\<lambda>(b, c). cert_Height C c) bs)"
      and "distinct (map (\<lambda>(b, c). blk_Hash b) bs)"
      and "length (blk_Hash blk) = HashSize"
  shows "blockStore_block (db s) (cert_Height C cert) = Ok (blk_Hash blk @ block_bytes blk) \<and>
         Block s (cert_Height C cert) =
           Ok \<lparr>BlockHash = blk_Hash blk, Height = cert_Height C cert, Data = block_bytes blk\<rparr> \<and>
         BlockHash_of s (cert_Height C cert) = Ok (blk_Hash blk) \<and>
         BlockHeight s (blk_Hash blk) = cert_Height C cert"
proof -
  from commit_all_stored [OF assms(1-4)]
  have a: "map_of (kv (db s)) (blockKey (cert_Height C cert)) = Some (blk_Hash blk @ block_bytes blk)"
    and b: "map_of (kv (db s)) (blockHashKey (blk_Hash blk)) = Some (Uint32ToSlice (cert_Height C cert))"
    by simp_all
  have blk: "blockStore_block (db s) (cert_Height C cert) = Ok (blk_Hash blk @ block_bytes blk)"
    using a by (simp add: blockStore_block_def tryGet_map_of)
  have "Block s (cert_Height C cert) =
           Ok \<lparr>BlockHash = blk_Hash blk, Height = cert_Height C cert, Data = block_bytes blk\<rparr>"
    using blk assms(5) by (simp add: Block_def go_slice_def hash_FromBytes_def)
  moreover have "BlockHash_of s (cert_Height C cert) = Ok (blk_Hash blk)"
    using blk assms(5) by (simp add: BlockHash_of_def go_slice_def hash_FromBytes_def)
  moreover have "BlockHeight s (blk_Hash blk) = cert_Height C cert"
    using b by (simp add: BlockHeight_def blockStore_blockHeight_def tryGet_map_of)
  ultimately show ?thesis using blk by simp
qed

theorem committed_block_hash_height_witness:
  "\<exists>s. commit_all height_cert emptyStore [(block_a, 1), (block_b, 2)] = Ok s \<and>
       Block s 1 = Ok \<lparr>BlockHash = blk_Hash block_a, Height = 1, Data = block_bytes block_a\<rparr> \<and>
       BlockHash_of s 1 = Ok (blk_Hash block_a) \<and>
       BlockHeight s (blk_Hash block_a) = 1"
proof -
  have "\<exists>s. commit_all height_cert emptyStore [(block_a, 1), (block_b, 2)] = Ok s"
    by (rule commit_all_Ok) (simp_all add: emptyStore_def height_cert_def)
  then obtain s where s: "commit_all height_cert emptyStore [(block_a, 1), (block_b, 2)] = Ok s"
    by auto
  have d1: "distinct (map (\<lambda>(b, c). cert_Height height_cert c) [(block_a, 1), (block_b, 2)])"
    by (simp add: height_cert_def)
  have "blk_Hash block_a \<noteq> blk_Hash block_b"
  proof
    assume "blk_Hash block_a = blk_Hash block_b"
    then have "hd (blk_Hash block_a) = hd (blk_Hash block_b)" by simp
    then show False by (simp add: block_a_def block_b_def)
  qed
  then have d2: "distinct (map (\<lambda>(b, c). blk_Hash b) [(block_a, 1), (block_b, 2)])"
    by simp
  have l: "length (blk_Hash block_a) = HashSize" by (simp add: block_a_def HashSize_def)
  have h: "cert_Height height_cert 1 = 1" by (simp add: height_cert_def)
  show ?thesis
    using committed_block_hash_height [OF s _ d1 d2 l, of 1] s h by auto
qed

subsection \<open>Locking\<close>

text \<open>
  C9. Every public operation should take the exclusive lock, validator-address listing alone
  the shared one, and \<^verbatim>\<open>PublicKey\<close> in particular should lock. In the source \<^verbatim>\<open>PublicKey\<close>
  takes no lock at all; it and \<^verbatim>\<open>ValidatorAddresses\<close> are the only operations that do not
  take the exclusive lock.
\<close>

theorem PublicKey_takes_no_lock:
  "lock_of OpPublicKey = NoLock \<and>
   filter (\<lambda>op. lock_of op \<noteq> Exclusive) all_operations = [OpPublicKey, OpValidatorAddresses]"
  by (simp add: all_operations_def)

subsection \<open>Accounts\<close>

lemma hasAccount_iff: "accountStore_hasAccount m a \<longleftrightarrow> a \<in> fst ` set m"
  using map_of_eq_None_iff [of m a]
  by (auto simp: accountStore_hasAccount_def split: option.splits)

lemma UpdateAccount_fields:
  "accountStore_accounts (UpdateAccount s a acc) = AList.update a acc (accountStore_accounts s)"
  "accountStore_total (UpdateAccount s a acc) =
     (if a \<in> fst ` set (accountStore_accounts s) then accountStore_total s else accountStore_total s + 1)"
  by (simp_all add: UpdateAccount_def accountStore_updateAccount_def hasAccount_iff)

lemma UpdateAccount_inv:
  assumes tot: "accountStore_total s = of_nat (card (fst ` set (accountStore_accounts s)))"
    and d: "distinct (map fst (accountStore_accounts s))"
  shows "accountStore_total (UpdateAccount s a acc) =
           of_nat (card (fst ` set (accountStore_accounts (UpdateAccount s a acc))))"
    and "distinct (map fst (accountStore_accounts (UpdateAccount s a acc)))"
    and "fst ` set (accountStore_accounts (UpdateAccount s a acc)) =
           insert a (fst ` set (accountStore_accounts s))"
proof -
  let ?m = "accountStore_accounts s"
  show keys: "fst ` set (accountStore_accounts (UpdateAccount s a acc)) = insert a (fst ` set ?m)"
    by (simp add: UpdateAccount_fields dom_update)
  show "distinct (map fst (accountStore_accounts (UpdateAccount s a acc)))"
    using d by (simp add: UpdateAccount_fields distinct_update)
  show "accountStore_total (UpdateAccount s a acc) =
          of_nat (card (fst ` set (accountStore_accounts (UpdateAccount s a acc))))"
  proof (cases "a \<in> fst ` set ?m")
    case True
    then have "insert a (fst ` set ?m) = fst ` set ?m" by auto
    then show ?thesis unfolding keys using True tot by (simp add: UpdateAccount_fields)
  next
    case False
    then have "card (insert a (fst ` set ?m)) = Suc (card (fst ` set ?m))" by simp
    then show ?thesis unfolding keys using False tot by (simp add: UpdateAccount_fields)
  qed
qed

lemma update_accounts_inv:
  "accountStore_total s = of_nat (card (fst ` set (accountStore_accounts s))) \<Longrightarrow>
   distinct (map fst (accountStore_accounts s)) \<Longrightarrow>
     accountStore_total (update_accounts s us) =
       of_nat (card (fst ` set (accountStore_accounts (update_accounts s us)))) \<and>
     distinct (map fst (accountStore_accounts (update_accounts s us))) \<and>
     fst ` set (accountStore_accounts (update_accounts s us)) =
       fst ` set (accountStore_accounts s) \<union> fst ` set us"
proof (induction us arbitrary: s)
  case Nil
  then show ?case by (simp add: update_accounts_def)
next
  case (Cons u us)
  obtain a acc where u: "u = (a, acc)" by (cases u)
  have step: "update_accounts s (u # us) = update_accounts (UpdateAccount s a acc) us"
    by (simp add: update_accounts_def u)
  from Cons.IH [OF UpdateAccount_inv(1) [OF Cons.prems] UpdateAccount_inv(2) [OF Cons.prems], of a acc]
    UpdateAccount_inv(3) [OF Cons.prems, of a acc]
  show ?case unfolding step by (simp add: u)
qed

lemma update_accounts_empty:
  "accountStore_total (update_accounts emptyStore us) = of_nat (card (fst ` set us))"
  "distinct (map fst (accountStore_accounts (update_accounts emptyStore us)))"
  "fst ` set (accountStore_accounts (update_accounts emptyStore us)) = fst ` set us"
  using update_accounts_inv [of emptyStore us] by (simp_all add: emptyStore_def)

lemma iterate_record: "iterate_entries record_address es st = st @ map fst es"
  by (induction es arbitrary: st) (auto simp: record_address_def)

lemma visited_accounts_eq: "visited_accounts s = map fst (sort_key fst (accountStore_accounts s))"
  by (simp add: visited_accounts_def IterateAccounts_def accountStore_iterateAccounts_def iterate_record)

lemma set_visited_accounts: "set (visited_accounts s) = fst ` set (accountStore_accounts s)"
  by (simp add: visited_accounts_eq)

lemma distinct_visited_accounts:
  assumes "distinct (map fst (accountStore_accounts s))"
  shows "distinct (visited_accounts s)"
proof -
  let ?m = "accountStore_accounts s"
  from assms have "distinct ?m \<and> inj_on fst (set ?m)" by (simp only: distinct_map)
  then have "distinct (sort_key fst ?m) \<and> inj_on fst (set (sort_key fst ?m))"
    by (simp only: distinct_sort set_sort)
  then have "distinct (map fst (sort_key fst ?m))" by (simp only: distinct_map)
  then show ?thesis by (simp only: visited_accounts_eq)
qed

text \<open>
  C7. On a store that started empty, after any sequence of \<^verbatim>\<open>UpdateAccount\<close> calls,
  \<^verbatim>\<open>TotalAccounts\<close> is the number of distinct addresses passed to \<^verbatim>\<open>UpdateAccount\<close> (as a
  32-bit counter); one more update of an address among them does not change the count; and
  \<^verbatim>\<open>IterateAccounts\<close> visits exactly those addresses, each once.
\<close>

theorem accounts_total_and_iteration:
  "TotalAccounts (update_accounts emptyStore us) = of_nat (card (fst ` set us)) \<and>
   (addr \<in> fst ` set us \<longrightarrow>
      TotalAccounts (UpdateAccount (update_accounts emptyStore us) addr acc) =
        TotalAccounts (update_accounts emptyStore us)) \<and>
   set (visited_accounts (update_accounts emptyStore us)) = fst ` set us \<and>
   distinct (visited_accounts (update_accounts emptyStore us))"
proof (intro conjI impI)
  show "TotalAccounts (update_accounts emptyStore us) = of_nat (card (fst ` set us))"
    by (simp add: TotalAccounts_def update_accounts_empty(1))
next
  assume "addr \<in> fst ` set us"
  then have "addr \<in> fst ` set (accountStore_accounts (update_accounts emptyStore us))"
    by (simp only: update_accounts_empty(3))
  then show "TotalAccounts (UpdateAccount (update_accounts emptyStore us) addr acc) =
      TotalAccounts (update_accounts emptyStore us)"
    by (simp add: TotalAccounts_def UpdateAccount_fields(2))
next
  show "set (visited_accounts (update_accounts emptyStore us)) = fst ` set us"
    by (simp only: set_visited_accounts update_accounts_empty(3))
next
  show "distinct (visited_accounts (update_accounts emptyStore us))"
    by (rule distinct_visited_accounts) (rule update_accounts_empty(2))
qed

text \<open>
  Three updates of two addresses, with no flush in between: the total is 2, a further
  update of address \<open>[1]\<close> leaves it at 2, and the iteration visits \<open>[1]\<close> and \<open>[2]\<close>.
\<close>

theorem accounts_total_and_iteration_witness:
  "TotalAccounts (update_accounts emptyStore [([2], [10]), ([1], [11]), ([2], [12])]) = 2 \<and>
   [1] \<in> fst ` set [([2::byte], [10::byte]), ([1], [11]), ([2], [12])] \<and>
   TotalAccounts (UpdateAccount (update_accounts emptyStore [([2], [10]), ([1], [11]), ([2], [12])]) [1] [13]) = 2 \<and>
   set (visited_accounts (update_accounts emptyStore [([2], [10]), ([1], [11]), ([2], [12])])) = {[1], [2]} \<and>
   distinct (visited_accounts (update_accounts emptyStore [([2], [10]), ([1], [11]), ([2], [12])]))"
proof -
  have m: "[1] \<in> fst ` set [([2::byte], [10::byte]), ([1], [11]), ([2], [12])]" by simp
  have "fst ` set [([2::byte], [10::byte]), ([1], [11]), ([2], [12])] = {[1], [2]}" by auto
  then have c: "card (fst ` set [([2::byte], [10::byte]), ([1], [11]), ([2], [12])]) = 2" by simp
  show ?thesis
    using accounts_total_and_iteration [where us = "[([2], [10]), ([1], [11]), ([2], [12])]"
        and addr = "[1]" and acc = "[13]"] m c
    by auto
qed

subsection \<open>Validators\<close>

lemma index_of_None_iff: "index_of xs a = None \<longleftrightarrow> a \<notin> set xs"
  by (induction xs) auto

lemma index_of_append_in: "a \<in> set xs \<Longrightarrow> index_of (xs @ ys) a = index_of xs a"
  by (induction xs) auto

lemma index_of_append_new: "a \<notin> set xs \<Longrightarrow> index_of (xs @ [a]) a = Some (length xs)"
  by (induction xs) auto

lemma update_validators_snoc:
  "update_validators s (vs @ [v]) = UpdateValidator (update_validators s vs) v"
  by (simp add: update_validators_def)

lemma UpdateValidator_seen:
  assumes "index_of (validatorStore_addresses s) (val_Address v) = Some n"
  shows "validatorStore_addresses (UpdateValidator s v) = validatorStore_addresses s"
    and "validatorStore_total (UpdateValidator s v) = validatorStore_total s"
    and "batch (UpdateValidator s v) =
           batch s @ [(validatorKey (val_Address v), validator_Bytes (v\<lparr>val_Number := of_nat n\<rparr>))]"
  using assms by (simp_all add: UpdateValidator_def validatorStore_updateValidator_def batch_Put_def)

lemma UpdateValidator_new:
  assumes "index_of (validatorStore_addresses s) (val_Address v) = None"
  shows "validatorStore_addresses (UpdateValidator s v) = validatorStore_addresses s @ [val_Address v]"
    and "validatorStore_total (UpdateValidator s v) = validatorStore_total s + 1"
    and "batch (UpdateValidator s v) =
           batch s @ [(validatorKey (val_Address v), validator_Bytes (v\<lparr>val_Number := validatorStore_total s\<rparr>))]"
  using assms by (simp_all add: UpdateValidator_def validatorStore_updateValidator_def batch_Put_def)

lemma numbered_put_append:
  "val_Address u \<in> set addrs \<Longrightarrow> numbered_put (addrs @ ys) u = numbered_put addrs u"
  by (simp add: numbered_put_def index_of_append_in)

lemma update_validators_inv:
  "distinct (validatorStore_addresses (update_validators emptyStore vs)) \<and>
   set (validatorStore_addresses (update_validators emptyStore vs)) = val_Address ` set vs \<and>
   validatorStore_total (update_validators emptyStore vs) =
     of_nat (length (validatorStore_addresses (update_validators emptyStore vs))) \<and>
   batch (update_validators emptyStore vs) =
     map (numbered_put (validatorStore_addresses (update_validators emptyStore vs))) vs"
proof (induction vs rule: rev_induct)
  case Nil
  then show ?case by (simp add: update_validators_def emptyStore_def)
next
  case (snoc v vs)
  let ?s = "update_validators emptyStore vs"
  let ?addrs = "validatorStore_addresses ?s"
  from snoc have d: "distinct ?addrs" and st: "set ?addrs = val_Address ` set vs"
    and tot: "validatorStore_total ?s = of_nat (length ?addrs)"
    and b: "batch ?s = map (numbered_put ?addrs) vs" by simp_all
  show ?case
  proof (cases "index_of ?addrs (val_Address v)")
    case None
    then have new: "val_Address v \<notin> set ?addrs" by (simp add: index_of_None_iff)
    have old: "map (numbered_put (?addrs @ [val_Address v])) vs = map (numbered_put ?addrs) vs"
      using st by (auto simp: numbered_put_append)
    have this_put: "numbered_put (?addrs @ [val_Address v]) v =
        (validatorKey (val_Address v), validator_Bytes (v\<lparr>val_Number := validatorStore_total ?s\<rparr>))"
      using new tot by (simp add: numbered_put_def index_of_append_new)
    show ?thesis
      unfolding update_validators_snoc UpdateValidator_new [OF None]
      using d st new tot b old this_put by simp
  next
    case (Some n)
    then have seen: "val_Address v \<in> set ?addrs"
      using index_of_None_iff [of ?addrs "val_Address v"] by auto
    have this_put: "numbered_put ?addrs v =
        (validatorKey (val_Address v), validator_Bytes (v\<lparr>val_Number := of_nat n\<rparr>))"
      using Some by (simp add: numbered_put_def)
    show ?thesis
      unfolding update_validators_snoc UpdateValidator_seen [OF Some]
      using d st seen tot b this_put by auto
  qed
qed

lemma addresses_grow:
  "take (length (validatorStore_addresses (update_validators s vs)))
     (validatorStore_addresses (update_validators s (vs @ ws))) =
   validatorStore_addresses (update_validators s vs)"
proof (induction ws rule: rev_induct)
  case Nil
  then show ?case by simp
next
  case (snoc w ws)
  let ?s = "update_validators s (vs @ ws)"
  have e: "update_validators s (vs @ ws @ [w]) = UpdateValidator ?s w"
    using update_validators_snoc [of s "vs @ ws" w] by simp
  from snoc have "length (take (length (validatorStore_addresses (update_validators s vs)))
      (validatorStore_addresses ?s)) = length (validatorStore_addresses (update_validators s vs))"
    by simp
  then have le: "length (validatorStore_addresses (update_validators s vs)) \<le> length (validatorStore_addresses ?s)"
    by simp
  show ?case
  proof (cases "index_of (validatorStore_addresses ?s) (val_Address w)")
    case None
    show ?thesis unfolding e UpdateValidator_new [OF None] using snoc le by simp
  next
    case (Some n)
    show ?thesis unfolding e UpdateValidator_seen [OF Some] using snoc by simp
  qed
qed

text \<open>
  C8. After any sequence of \<^verbatim>\<open>UpdateValidator\<close> calls on a store that started empty: the
  address list, whose positions are the validator numbers, has no duplicates and holds exactly
  the addresses passed; it only ever grows at its end, so the number given at a first
  insertion is one more than the largest number given before and is never given again;
  every record written, at a first insertion or at a re-save, carries the position of its
  address, so a re-save keeps the original number; and \<^verbatim>\<open>TotalValidators\<close> is the number of
  distinct addresses (as a 32-bit counter).
\<close>

theorem validator_numbers:
  "distinct (ValidatorAddresses (update_validators emptyStore vs)) \<and>
   set (ValidatorAddresses (update_validators emptyStore vs)) = val_Address ` set vs \<and>
   TotalValidators (update_validators emptyStore vs) = of_nat (card (val_Address ` set vs)) \<and>
   batch (update_validators emptyStore vs) =
     map (numbered_put (ValidatorAddresses (update_validators emptyStore vs))) vs \<and>
   take (length (ValidatorAddresses (update_validators emptyStore (take k vs))))
     (ValidatorAddresses (update_validators emptyStore vs)) =
   ValidatorAddresses (update_validators emptyStore (take k vs))"
proof -
  let ?s = "update_validators emptyStore vs"
  from update_validators_inv [of vs]
  have d: "distinct (validatorStore_addresses ?s)"
    and st: "set (validatorStore_addresses ?s) = val_Address ` set vs"
    and tot: "validatorStore_total ?s = of_nat (length (validatorStore_addresses ?s))"
    and b: "batch ?s = map (numbered_put (validatorStore_addresses ?s)) vs" by simp_all
  have "length (validatorStore_addresses ?s) = card (val_Address ` set vs)"
    using d st distinct_card by metis
  then have t: "TotalValidators ?s = of_nat (card (val_Address ` set vs))"
    using tot by (simp add: TotalValidators_def)
  have g: "take (length (validatorStore_addresses (update_validators emptyStore (take k vs))))
     (validatorStore_addresses ?s) = validatorStore_addresses (update_validators emptyStore (take k vs))"
    using addresses_grow [of emptyStore "take k vs" "drop k vs"] by simp
  show ?thesis using d st t b g by (simp add: ValidatorAddresses_def)
qed

text \<open>Two validators, the first saved again: numbers 0, 1 and 0 again, and a total of 2.\<close>

lemma validator_numbers_example:
  "batch (update_validators emptyStore
     [\<lparr>val_Address = [1], val_Number = 9, val_data = [7]\<rparr>,
      \<lparr>val_Address = [2], val_Number = 9, val_data = [8]\<rparr>,
      \<lparr>val_Address = [1], val_Number = 9, val_data = [6]\<rparr>]) =
     [([7, 1], [0, 0, 0, 0, 7]), ([7, 2], [1, 0, 0, 0, 8]), ([7, 1], [0, 0, 0, 0, 6])] \<and>
   TotalValidators (update_validators emptyStore
     [\<lparr>val_Address = [1], val_Number = 9, val_data = [7]\<rparr>,
      \<lparr>val_Address = [2], val_Number = 9, val_data = [8]\<rparr>,
      \<lparr>val_Address = [1], val_Number = 9, val_data = [6]\<rparr>]) = 2"
  by (simp add: update_validators_def UpdateValidator_def validatorStore_updateValidator_def
      batch_Put_def emptyStore_def validator_Bytes_def validatorKey_def validatorPrefix_def
      Uint32ToSlice_def TotalValidators_def)

end
